theory Spec2Isabelle
  imports Main "HOL-Library.Word" "HOL-Library.Sublist" "HOL-Library.Multiset"
begin

section \<open>Cinema booking service: seat ledger, wire protocol, session plumbing\<close>

subsection \<open>Shows (server/lib/cinema.cpp, client/lib/cinema\_Client.cpp)\<close>

text \<open>
  The class \<open>Shows\<close> has the same fields on the server and on the client:
  \<open>movie\<close>, \<open>dateTime\<close>, \<open>theater\<close> and the bitmap \<open>seats\<close>
  (\<open>false\<close> = available, \<open>true\<close> = booked). The mutex is not part of the value.
  Seat numbers travel as \<open>uint8_t\<close>, modelled as \<open>8 word\<close>.
\<close>

type_synonym uint8 = "8 word"

record Shows =
  movie :: string
  dateTime :: string
  theater :: string
  seats :: "bool list"

text \<open>Constructor \<open>Shows(m, dt, t)\<close>: \<open>seats.resize(20, false)\<close>.\<close>

definition Shows_ctor :: "string \<Rightarrow> string \<Rightarrow> string \<Rightarrow> Shows" where
  "Shows_ctor m dt t = \<lparr>movie = m, dateTime = dt, theater = t, seats = replicate 20 False\<rparr>"

text \<open>
  \<open>getAvailableSeats\<close>: for every index \<open>i\<close> from 0 with \<open>!seats[i]\<close>, push
  \<open>static_cast<uint8_t>(i + 1)\<close>.
\<close>

definition getAvailableSeats :: "Shows \<Rightarrow> uint8 list" where
  "getAvailableSeats s =
     map (\<lambda>i. (of_nat (i + 1) :: uint8)) (filter (\<lambda>i. \<not> seats s ! i) [0..<length (seats s)])"

text \<open>
  \<open>bookSeats\<close>, first loop: return false at the first seat with
  \<open>seat < 1 || seat > seats.size() || seats[seat - 1]\<close>.
\<close>

fun seats_bookable :: "uint8 list \<Rightarrow> bool list \<Rightarrow> bool" where
  "seats_bookable [] st = True"
| "seats_bookable (seat # rest) st =
     (if unat seat < 1 \<or> unat seat > length st \<or> st ! (unat seat - 1) then False
      else seats_bookable rest st)"

text \<open>Second loop: \<open>seats[seat - 1] = true\<close> for every seat, in order.\<close>

fun mark_seats :: "uint8 list \<Rightarrow> bool list \<Rightarrow> bool list" where
  "mark_seats [] st = st"
| "mark_seats (seat # rest) st = mark_seats rest (st[unat seat - 1 := True])"

text \<open>\<open>bookSeats\<close> returns the result and the bitmap after the call.\<close>

definition bookSeats :: "uint8 list \<Rightarrow> bool list \<Rightarrow> bool \<times> bool list" where
  "bookSeats seatNumbers st =
     (if seats_bookable seatNumbers st then (True, mark_seats seatNumbers st) else (False, st))"

subsection \<open>Strings: the standard-library operations the code uses\<close>

text \<open>
  \<open>std::string\<close> is a byte string: \<open>string\<close> (a \<open>char list\<close>). The operations below
  follow the C++ standard library in the "C" locale.
\<close>

definition isspace :: "char \<Rightarrow> bool" where
  "isspace c = (c \<in> set [CHR '' '', CHR 0x09, CHR ''\<newline>'', CHR 0x0B, CHR 0x0C, CHR 0x0D])"

definition isdigit :: "char \<Rightarrow> bool" where
  "isdigit c = (c \<in> set ''0123456789'')"

definition digit_char :: "nat \<Rightarrow> char" where
  "digit_char d = ''0123456789'' ! d"

definition digit_val :: "char \<Rightarrow> nat" where
  "digit_val c = (of_char c :: nat) - 48"

text \<open>
  Decimal rendering of a non-negative integer: \<open>std::to_string\<close> and
  \<open>operator<<\<close> on \<open>int\<close> and \<open>size_t\<close>.
\<close>

function to_string :: "nat \<Rightarrow> string" where
  "to_string n = (if n < 10 then [digit_char n] else to_string (n div 10) @ [digit_char (n mod 10)])"
  by pat_completeness auto
termination
  by (relation "measure id") auto

declare to_string.simps [simp del]

text \<open>
  \<open>while (std::getline(ss, item, delim)) parts.push_back(item)\<close>: characters are
  collected up to the delimiter or the end of input; an extraction that reaches the end
  of input without a character fails and ends the loop.
\<close>

fun getline_loop :: "char \<Rightarrow> string \<Rightarrow> string \<Rightarrow> string list" where
  "getline_loop delim item [] = (if item = [] then [] else [item])"
| "getline_loop delim item (c # cs) =
     (if c = delim then item # getline_loop delim [] cs
      else getline_loop delim (item @ [c]) cs)"

definition getlines :: "char \<Rightarrow> string \<Rightarrow> string list" where
  "getlines delim s = getline_loop delim [] s"

text \<open>
  \<open>while (stream >> token)\<close>: leading whitespace is skipped, then characters are
  collected up to the next whitespace or the end of input.
\<close>

fun token_loop :: "string \<Rightarrow> string \<Rightarrow> string list" where
  "token_loop tok [] = (if tok = [] then [] else [tok])"
| "token_loop tok (c # cs) =
     (if isspace c then (if tok = [] then token_loop [] cs else tok # token_loop [] cs)
      else token_loop (tok @ [c]) cs)"

definition tokens :: "string \<Rightarrow> string list" where
  "tokens s = token_loop [] s"

text \<open>
  \<open>s.find(pat)\<close>: the first position at which \<open>pat\<close> occurs, \<open>None\<close> for
  \<open>npos\<close>.
\<close>

fun str_find :: "string \<Rightarrow> string \<Rightarrow> nat option" where
  "str_find pat [] = (if pat = [] then Some 0 else None)"
| "str_find pat (c # cs) =
     (if prefix pat (c # cs) then Some 0 else map_option Suc (str_find pat cs))"

text \<open>
  \<open>std::stoi(str)\<close> (base 10, via \<open>strtol\<close>): leading whitespace is skipped, one
  optional sign is read, then the longest run of digits; no digit throws
  \<open>std::invalid_argument\<close>, a value that does not fit \<open>int\<close> throws
  \<open>std::out_of_range\<close>. Trailing characters are ignored.
\<close>

datatype stoi_error = invalid_argument | out_of_range

definition digits_value :: "string \<Rightarrow> nat" where
  "digits_value ds = foldl (\<lambda>acc c. 10 * acc + digit_val c) 0 ds"

definition stoi :: "string \<Rightarrow> stoi_error + int" where
  "stoi str =
     (let s1 = dropWhile isspace str;
          neg = (s1 \<noteq> [] \<and> hd s1 = CHR ''-'');
          s2 = (if s1 \<noteq> [] \<and> (hd s1 = CHR ''-'' \<or> hd s1 = CHR ''+'') then tl s1 else s1);
          ds = takeWhile isdigit s2
      in if ds = [] then Inl invalid_argument
         else let v = (if neg then - int (digits_value ds) else int (digits_value ds))
              in if v < - 2147483648 \<or> 2147483647 < v then Inl out_of_range else Inr v)"

subsection \<open>CinemaService (server/lib/cinema.cpp)\<close>

text \<open>
  The theater names in first-seen order: a name is appended when \<open>std::find\<close> does not
  find it among those collected so far.
\<close>

definition theaters_of :: "Shows list \<Rightarrow> string list" where
  "theaters_of shows =
     foldl (\<lambda>theaters show. if theater show \<in> set theaters then theaters
                             else theaters @ [theater show]) [] shows"

text \<open>
  The seat list: each number, followed by \<open>", "\<close> unless it is the last
  (\<open>i < size - 1\<close>).
\<close>

fun join_seats :: "uint8 list \<Rightarrow> string" where
  "join_seats [] = []"
| "join_seats [x] = to_string (unat x)"
| "join_seats (x # y # rest) = to_string (unat x) @ '', '' @ join_seats (y # rest)"

definition format_show :: "Shows \<Rightarrow> string" where
  "format_show show =
     (let availableSeats = getAvailableSeats show in
      ''  Movie: '' @ movie show @ '' ('' @ dateTime show @ '')\<newline>'' @
      ''    Available seats: '' @
      (if availableSeats = [] then ''SOLD OUT'' else join_seats availableSeats) @
      '' (Total: '' @ to_string (length availableSeats) @ ''/20)\<newline>'')"

definition format_theater :: "Shows list \<Rightarrow> string \<Rightarrow> string" where
  "format_theater shows theaterName =
     ''Theater: '' @ theaterName @ ''\<newline>'' @
     concat (map format_show (filter (\<lambda>show. theater show = theaterName) shows)) @
     ''\<newline>''"

definition formatCinemaData :: "Shows list \<Rightarrow> string" where
  "formatCinemaData shows =
     ''=== CINEMA DATA STREAM ===\<newline>'' @
     concat (map (format_theater shows) (theaters_of shows)) @
     ''=== END CINEMA DATA ===\<newline>''"

definition formatUpdateData :: "Shows list \<Rightarrow> string" where
  "formatUpdateData shows =
     ''BOOKING_UPDATE:\<newline>=== UPDATED CINEMA DATA ===\<newline>'' @
     concat (map (format_theater shows) (theaters_of shows)) @
     ''=== END UPDATED DATA ===\<newline>''"

subsection \<open>BookingService and MessageHandler (server/lib/cinema.cpp)\<close>

record BookingResult =
  success :: bool
  message :: string
  shouldBroadcast :: bool

text \<open>
  The seat loop of \<open>processBooking\<close> over \<open>parts[2..]\<close>: \<open>std::stoi\<close>, the range
  check \<open>seatNum > 0 && seatNum <= 20\<close>, and a return at the first field that fails
  either. \<open>snapshot\<close> is \<open>formatCinemaData(shows)\<close>.
\<close>

fun seat_loop :: "string list \<Rightarrow> uint8 list \<Rightarrow> string \<Rightarrow> BookingResult + uint8 list" where
  "seat_loop [] seatNumbers snapshot = Inr seatNumbers"
| "seat_loop (p # ps) seatNumbers snapshot =
     (case stoi p of
        Inl e \<Rightarrow>
          Inl \<lparr>success = False,
               message = ''ERROR: Invalid seat number format: '' @ p @ ''\<newline>\<newline>'' @ snapshot,
               shouldBroadcast = False\<rparr>
      | Inr seatNum \<Rightarrow>
          if seatNum > 0 \<and> seatNum \<le> 20
          then seat_loop ps (seatNumbers @ [of_int seatNum]) snapshot
          else Inl \<lparr>success = False,
                    message = ''ERROR: Invalid seat number '' @ p @ ''. Must be 1-20.\<newline>\<newline>'' @ snapshot,
                    shouldBroadcast = False\<rparr>)"

text \<open>
  The show loop: the index of the first show with
  \<open>show.theater == theaterName && show.movie == movieName\<close>; the loop body returns
  at that show whatever \<open>bookSeats\<close> says.
\<close>

fun find_show :: "string \<Rightarrow> string \<Rightarrow> Shows list \<Rightarrow> nat option" where
  "find_show theaterName movieName [] = None"
| "find_show theaterName movieName (show # rest) =
     (if theater show = theaterName \<and> movie show = movieName then Some 0
      else map_option Suc (find_show theaterName movieName rest))"

text \<open>
  \<open>processBooking\<close> returns the \<open>BookingResult\<close> and the catalog after the call
  (\<open>shows\<close> is passed by reference and \<open>bookSeats\<close> acts on the matched show in
  place). The success text lists \<open>seatNumbers\<close> with \<open>std::to_string\<close>, in vector
  order.
\<close>

definition processBooking :: "string \<Rightarrow> Shows list \<Rightarrow> BookingResult \<times> Shows list" where
  "processBooking msg shows =
     (let parts = getlines CHR '','' msg in
      if length parts < 3 then
        (\<lparr>success = False,
          message = ''ERROR: Invalid booking format. Use: theater,movie,seat1,seat2,...\<newline>\<newline>''
                    @ formatCinemaData shows,
          shouldBroadcast = False\<rparr>, shows)
      else
        let theaterName = parts ! 0; movieName = parts ! 1 in
        case seat_loop (drop 2 parts) [] (formatCinemaData shows) of
          Inl err \<Rightarrow> (err, shows)
        | Inr seatNumbers \<Rightarrow>
            (case find_show theaterName movieName shows of
               None \<Rightarrow>
                 (\<lparr>success = False,
                   message = ''ERROR: Show not found - '' @ movieName @ '' at '' @ theaterName
                             @ ''\<newline>\<newline>'' @ formatCinemaData shows,
                   shouldBroadcast = False\<rparr>, shows)
             | Some i \<Rightarrow>
                 let (booked, seats') = bookSeats seatNumbers (seats (shows ! i));
                     shows' = shows[i := (shows ! i)\<lparr>seats := seats'\<rparr>]
                 in if booked then
                      (\<lparr>success = True,
                        message = ''SUCCESS: Booked seats '' @ join_seats seatNumbers
                                  @ '' for '' @ movieName @ '' at '' @ theaterName
                                  @ ''\<newline>\<newline>'' @ formatCinemaData shows',
                        shouldBroadcast = True\<rparr>, shows')
                    else
                      (\<lparr>success = False,
                        message = ''ERROR: One or more seats are already booked or invalid\<newline>\<newline>''
                                  @ formatCinemaData shows',
                        shouldBroadcast = False\<rparr>, shows')))"

text \<open>
  \<open>handleMessage\<close> returns the response, the out-parameter \<open>shouldBroadcast\<close> and the
  catalog after the call.
\<close>

definition handleMessage :: "string \<Rightarrow> Shows list \<Rightarrow> string \<times> bool \<times> Shows list" where
  "handleMessage received shows =
     (if received = ''get_data'' \<or> received = ''refresh'' then
        (formatCinemaData shows, False, shows)
      else if str_find '','' received \<noteq> None then
        (let (result, shows') = processBooking received shows
         in (message result, shouldBroadcast result, shows'))
      else
        (''Echo: '' @ received @ ''\<newline>\<newline>'' @ formatCinemaData shows, False, shows))"

subsection \<open>Client: Shows and the snapshot parser (client/lib)\<close>

text \<open>
  \<open>Shows::updateSeatAvailability\<close> (cinema\_Client.cpp): the bitmap is replaced when
  \<open>seatStatus.size() == seats.size()\<close>, otherwise nothing happens.
\<close>

definition updateSeatAvailability :: "bool list \<Rightarrow> Shows \<Rightarrow> Shows" where
  "updateSeatAvailability seatStatus s =
     (if length seatStatus = length (seats s) then s\<lparr>seats := seatStatus\<rparr> else s)"

text \<open>
  The methods that act on a \<open>Shows\<close> value after its construction. \<open>bookSeats\<close> is
  the server's method (the client header declares it as well).
\<close>

datatype shows_op =
    GetAvailableSeats
  | BookSeats "uint8 list"
  | UpdateSeatAvailability "bool list"

fun apply_op :: "Shows \<Rightarrow> shows_op \<Rightarrow> Shows" where
  "apply_op s GetAvailableSeats = s"
| "apply_op s (BookSeats seatNumbers) = s\<lparr>seats := snd (bookSeats seatNumbers (seats s))\<rparr>"
| "apply_op s (UpdateSeatAvailability seatStatus) = updateSeatAvailability seatStatus s"

text \<open>
  The token loop of \<open>parseAndUpdateShows\<close>: one trailing comma is removed from the
  token, \<open>std::stoi\<close> is applied, a value in [1,20] clears \<open>seatStatus[seatNum - 1]\<close>;
  an exception of \<open>stoi\<close> is caught and the token skipped.
\<close>

fun seat_token_loop :: "string list \<Rightarrow> bool list \<Rightarrow> bool list" where
  "seat_token_loop [] seatStatus = seatStatus"
| "seat_token_loop (token # rest) seatStatus =
     (let token' = (if token \<noteq> [] \<and> last token = CHR '','' then butlast token else token) in
      case stoi token' of
        Inl e \<Rightarrow> seat_token_loop rest seatStatus
      | Inr seatNum \<Rightarrow>
          if seatNum \<ge> 1 \<and> seatNum \<le> 20
          then seat_token_loop rest (seatStatus[nat (seatNum - 1) := False])
          else seat_token_loop rest seatStatus)"

text \<open>
  The parser's local state: the member \<open>shows_\<close> being rebuilt (\<open>client_shows\<close>), \<open>currentTheater\<close>, and
  the pointer \<open>currentShow\<close>, which is null or points at an element of it
  (modelled by its index).
\<close>

record parser_state =
  client_shows :: "Shows list"
  currentTheater :: string
  currentShow :: "nat option"

text \<open>
  One iteration of the line loop. \<open>find\<close> returning \<open>npos\<close> is \<open>None\<close>;
  \<open>npos + 1\<close> wraps to 0; \<open>startDate < npos\<close> holds, and \<open>substr\<close> with a count
  reaching past the end returns the rest of the string. The prefix lengths
  \<open>THEATER_PREFIX_LEN\<close> and \<open>MOVIE_PREFIX_LEN\<close> are both 9.
\<close>

definition parse_line :: "string \<Rightarrow> parser_state \<Rightarrow> parser_state" where
  "parse_line line st =
     (if str_find ''Theater: '' line = Some 0 then
        st\<lparr>currentTheater := drop 9 line, currentShow := None\<rparr>
      else if str_find ''  Movie: '' line = Some 0 \<and> currentTheater st \<noteq> [] then
        (let movieLine = drop 9 line in
         case str_find '' ('' movieLine of
           None \<Rightarrow> st
         | Some datePos \<Rightarrow>
             let movieName = take datePos movieLine;
                 startDate = (case str_find ''('' movieLine of None \<Rightarrow> 0 | Some i \<Rightarrow> i + 1);
                 endDate = str_find '')'' movieLine
             in if (case endDate of None \<Rightarrow> True | Some e \<Rightarrow> startDate < e) then
                  let dateTime = (case endDate of
                                    None \<Rightarrow> drop startDate movieLine
                                  | Some e \<Rightarrow> take (e - startDate) (drop startDate movieLine))
                  in st\<lparr>client_shows := client_shows st @ [Shows_ctor movieName dateTime (currentTheater st)],
                        currentShow := Some (length (client_shows st))\<rparr>
                else st)
      else if str_find ''    Available seats:'' line \<noteq> None \<and> currentShow st \<noteq> None then
        (let seatsLine0 = drop (case str_find '':'' line of None \<Rightarrow> 0 | Some i \<Rightarrow> i + 1) line;
             seatsLine = (case str_find ''(Total:'' seatsLine0 of
                            None \<Rightarrow> seatsLine0
                          | Some totalPos \<Rightarrow> take totalPos seatsLine0);
             seatStatus = seat_token_loop (tokens seatsLine) (replicate 20 True)
         in case currentShow st of
              None \<Rightarrow> st
            | Some i \<Rightarrow>
                st\<lparr>client_shows := (client_shows st)[i := updateSeatAvailability seatStatus (client_shows st ! i)]\<rparr>)
      else st)"

text \<open>
  \<open>parse_lines\<close> runs the line loop over a text from a given state;
  \<open>parseAndUpdateShows\<close> starts from the cleared list.
\<close>

definition parse_lines :: "parser_state \<Rightarrow> string \<Rightarrow> parser_state" where
  "parse_lines st text = foldl (\<lambda>st line. parse_line line st) st (getlines CHR ''\<newline>'' text)"

definition parseAndUpdateShows :: "string \<Rightarrow> Shows list" where
  "parseAndUpdateShows response =
     client_shows (parse_lines \<lparr>client_shows = [], currentTheater = [], currentShow = None\<rparr> response)"

text \<open>
  The order in which a snapshot lists the catalog: theater by theater in first-seen
  order, and within a theater in catalog order (the two nested loops of
  \<open>formatCinemaData\<close>).
\<close>

definition snapshot_order :: "Shows list \<Rightarrow> Shows list" where
  "snapshot_order shows =
     concat (map (\<lambda>theaterName. filter (\<lambda>show. theater show = theaterName) shows)
                 (theaters_of shows))"

text \<open>
  Names the wire format can carry: a theater name is not empty and has no line break; a
  title has no parenthesis and no line break; a date is not empty and has no closing
  parenthesis and no line break; the ledger has 20 seats.
\<close>

definition wire_safe :: "Shows \<Rightarrow> bool" where
  "wire_safe s =
     (theater s \<noteq> [] \<and> CHR ''\<newline>'' \<notin> set (theater s) \<and>
      CHR ''('' \<notin> set (movie s) \<and> CHR '')'' \<notin> set (movie s) \<and>
      CHR ''\<newline>'' \<notin> set (movie s) \<and>
      dateTime s \<noteq> [] \<and> CHR '')'' \<notin> set (dateTime s) \<and>
      CHR ''\<newline>'' \<notin> set (dateTime s) \<and>
      length (seats s) = 20)"

subsection \<open>WebSocketSession and WebSocketServer (server/lib/websocket\_server.cpp)\<close>

text \<open>
  A session has the members \<open>message_queue_\<close> and \<open>writing_\<close> (here without
  the trailing underscore). Its stream \<open>ws_\<close> is
  represented by what the code asks of it: \<open>ws_written\<close> lists the messages handed to
  \<open>async_write\<close> so far, \<open>ws_pending_writes\<close> counts the \<open>async_write\<close> operations
  whose completion handler has not run yet, and \<open>ws_handshake\<close> follows
  \<open>async_accept\<close>. Handlers of one session run one at a time (one thread runs the
  \<open>io_context\<close>).
\<close>

datatype handshake = NotStarted | Pending | Completed | Failed

record WebSocketSession =
  message_queue :: "string list"
  writing :: bool
  ws_written :: "string list"
  ws_pending_writes :: nat
  ws_handshake :: handshake

text \<open>Constructor: \<open>writing(false)\<close>, an empty queue, nothing asked of the stream.\<close>

definition new_session :: WebSocketSession where
  "new_session = \<lparr>message_queue = [], writing = False, ws_written = [],
                   ws_pending_writes = 0, ws_handshake = NotStarted\<rparr>"

definition do_write :: "WebSocketSession \<Rightarrow> WebSocketSession" where
  "do_write s =
     (if message_queue s = [] then s\<lparr>writing := False\<rparr>
      else s\<lparr>writing := True,
             message_queue := tl (message_queue s),
             ws_written := ws_written s @ [hd (message_queue s)],
             ws_pending_writes := Suc (ws_pending_writes s)\<rparr>)"

definition send_message :: "string \<Rightarrow> WebSocketSession \<Rightarrow> WebSocketSession" where
  "send_message msg s =
     (let s' = s\<lparr>message_queue := message_queue s @ [msg]\<rparr>
      in if \<not> writing s' then do_write s' else s')"






text \<open>
  The server: the registry \<open>sessions_\<close> (a set of session identities), the session
  objects, and the catalog that the callbacks of \<open>main.cpp\<close> capture
  (\<open>initialDataCallback\<close> is \<open>formatCinemaData(shows)\<close>, \<open>broadcastDataCallback\<close> is
  \<open>formatUpdateData(shows)\<close>).
\<close>

record WebSocketServer =
  sessions :: "nat set"
  session_of :: "nat \<Rightarrow> WebSocketSession"
  catalog :: "Shows list"

definition addSession :: "nat \<Rightarrow> WebSocketServer \<Rightarrow> WebSocketServer" where
  "addSession sid srv = srv\<lparr>sessions := insert sid (sessions srv)\<rparr>"

definition removeSession :: "nat \<Rightarrow> WebSocketServer \<Rightarrow> WebSocketServer" where
  "removeSession sid srv = srv\<lparr>sessions := sessions srv - {sid}\<rparr>"

definition getInitialData :: "WebSocketServer \<Rightarrow> string" where
  "getInitialData srv = formatCinemaData (catalog srv)"

text \<open>\<open>WebSocketSession::run\<close>: \<open>addSession\<close>, then \<open>async_accept\<close> is started.\<close>

definition run :: "nat \<Rightarrow> WebSocketServer \<Rightarrow> WebSocketServer" where
  "run sid srv =
     (let srv' = addSession sid srv
      in srv'\<lparr>session_of := (session_of srv')(sid := (session_of srv' sid)\<lparr>ws_handshake := Pending\<rparr>)\<rparr>)"

text \<open>
  \<open>WebSocketSession::on_accept(ec)\<close>, the completion handler of \<open>async_accept\<close>: with
  an error \<open>removeSession\<close>; otherwise \<open>send_message(getInitialData())\<close> (and
  \<open>do_read\<close>, which changes none of the fields above).
\<close>

definition on_accept :: "bool \<Rightarrow> nat \<Rightarrow> WebSocketServer \<Rightarrow> WebSocketServer" where
  "on_accept ec sid srv =
     (if ec then
        removeSession sid
          (srv\<lparr>session_of := (session_of srv)(sid := (session_of srv sid)\<lparr>ws_handshake := Failed\<rparr>)\<rparr>)
      else
        srv\<lparr>session_of := (session_of srv)
               (sid := send_message (getInitialData srv)
                         ((session_of srv sid)\<lparr>ws_handshake := Completed\<rparr>))\<rparr>)"

text \<open>
  \<open>WebSocketServer::broadcastUpdate\<close>: the update snapshot is sent to every session of
  the registry.
\<close>

definition broadcastUpdate :: "WebSocketServer \<Rightarrow> WebSocketServer" where
  "broadcastUpdate srv =
     srv\<lparr>session_of := (\<lambda>sid. if sid \<in> sessions srv
                                then send_message (formatUpdateData (catalog srv)) (session_of srv sid)
                                else session_of srv sid)\<rparr>"

definition new_server :: "Shows list \<Rightarrow> WebSocketServer" where
  "new_server shows = \<lparr>sessions = {}, session_of = (\<lambda>sid. new_session), catalog = shows\<rparr>"

subsection \<open>Auxiliary notions for the statements\<close>

text \<open>
  A seat field passes the seat loop of \<open>processBooking\<close> when \<open>std::stoi\<close> returns and
  the value satisfies \<open>seatNum > 0 && seatNum <= 20\<close>.
\<close>

definition seat_field_ok :: "string \<Rightarrow> bool" where
  "seat_field_ok p = (case stoi p of Inl e \<Rightarrow> False | Inr seatNum \<Rightarrow> seatNum > 0 \<and> seatNum \<le> 20)"


text \<open>
  The show of the repository's tests (\<open>Shows show("Inception", "2025-09-11 19:30", "PVR")\<close>),
  all seats free.
\<close>

definition inception_pvr :: Shows where
  "inception_pvr = Shows_ctor ''Inception'' ''2025-09-11 19:30'' ''PVR''"

text \<open>
  The two lines that \<open>formatCinemaData\<close> writes for a show, without their line breaks.
\<close>

definition movie_line :: "Shows \<Rightarrow> string" where
  "movie_line show = ''  Movie: '' @ movie show @ '' ('' @ dateTime show @ '')''"

definition seats_body :: "Shows \<Rightarrow> string" where
  "seats_body show =
     (if getAvailableSeats show = [] then ''SOLD OUT'' else join_seats (getAvailableSeats show))"

definition seats_line :: "Shows \<Rightarrow> string" where
  "seats_line show =
     ''    Available seats: '' @ seats_body show @
     '' (Total: '' @ to_string (length (getAvailableSeats show)) @ ''/20)''"

text \<open>The bitmap after the listed seats have been cleared, in list order.\<close>

definition clear_seats :: "uint8 list \<Rightarrow> bool list \<Rightarrow> bool list" where
  "clear_seats av st = fold (\<lambda>x st. st[unat x - 1 := False]) av st"

text \<open>
  The catalog that \<open>main\<close> seeds (server/main.cpp): for each theater, for each movie, a
  show with the date \<open>2025-09-11 19:30\<close> and the pattern \<open>patterns[patternIndex % 3]\<close>,
  where \<open>patternIndex\<close> counts the shows created so far.
\<close>

definition movieNames :: "string list" where
  "movieNames = [''Inception'', ''Interstellar'', ''Tenet'']"

definition theaterNames :: "string list" where
  "theaterNames = [''PVR'', ''IMAX'', ''Cinepolis'']"

definition patterns :: "bool list list" where
  "patterns =
     [[True, True, False, False, True,  False, False, False, False, True,
       True, False, False, True, True,  False, False, False, True, False],
      [False, True, False, True, False,  True, False, True, True, False,
       False, True, True, False, False,  True, True, False, False, True],
      [True, False, True, True, True,  False, True, True, False, True,
       True, False, True, True, True,  False, False, True, True, True]]"

definition main_catalog :: "Shows list" where
  "main_catalog =
     concat (map (\<lambda>ti. map (\<lambda>mi. (Shows_ctor (movieNames ! mi) ''2025-09-11 19:30'' (theaterNames ! ti))
                                     \<lparr>seats := patterns ! ((length movieNames * ti + mi) mod length patterns)\<rparr>)
                            [0..<length movieNames])
                 [0..<length theaterNames])"

text \<open>
  A catalog in which the shows of one theater are not adjacent, and a show whose date is
  empty.
\<close>

definition interleaved_catalog :: "Shows list" where
  "interleaved_catalog =
     [Shows_ctor ''Inception'' ''2025-09-11 19:30'' ''PVR'',
      (Shows_ctor ''Inception'' ''2025-09-11 19:30'' ''IMAX'')\<lparr>seats := replicate 20 True\<rparr>,
      Shows_ctor ''Tenet'' ''2025-09-11 19:30'' ''PVR'']"

definition undated_show :: Shows where
  "undated_show = Shows_ctor ''Tenet'' [] ''PVR''"

subsection \<open>Properties of the seat ledger\<close>

lemma seats_bookable_iff:
  "seats_bookable S st \<longleftrightarrow>
     (\<forall>s \<in> set S. 1 \<le> unat s \<and> unat s \<le> length st \<and> \<not> st ! (unat s - 1))"
  by (induction S) auto

lemma length_mark_seats: "length (mark_seats S st) = length st"
  by (induction S arbitrary: st) auto

lemma upd_True_nth: "i < length st \<Longrightarrow> st[j := True] ! i \<longleftrightarrow> (st ! i \<or> j = i)"
  by (cases "j = i") simp_all

lemma mark_seats_nth:
  "i < length st \<Longrightarrow>
     mark_seats S st ! i \<longleftrightarrow> (st ! i \<or> (\<exists>s \<in> set S. unat s - 1 = i))"
proof (induction S arbitrary: st)
  case Nil
  then show ?case by simp
next
  case (Cons a S)
  have "mark_seats (a # S) st ! i \<longleftrightarrow> mark_seats S (st[unat a - 1 := True]) ! i" by simp
  also have "\<dots> \<longleftrightarrow> (st[unat a - 1 := True] ! i \<or> (\<exists>s \<in> set S. unat s - 1 = i))"
    using Cons.prems by (intro Cons.IH) simp
  also have "\<dots> \<longleftrightarrow> (st ! i \<or> (\<exists>s \<in> set (a # S). unat s - 1 = i))"
    using Cons.prems by (auto simp: upd_True_nth)
  finally show ?case .
qed

lemma pred_seat_eq:
  "(\<forall>s \<in> set S. 1 \<le> unat (s::uint8)) \<Longrightarrow>
     (\<exists>s \<in> set S. unat s - 1 = i) \<longleftrightarrow> (\<exists>s \<in> set S. unat s = i + 1)"
  by (intro bex_cong refl) (auto simp: le_Suc_eq)

lemma mark_seats_set_eq:
  assumes "set S = set S'"
  shows "mark_seats S st = mark_seats S' st"
proof (rule nth_equalityI)
  show "length (mark_seats S st) = length (mark_seats S' st)"
    by (simp add: length_mark_seats)
next
  fix i assume "i < length (mark_seats S st)"
  then have "i < length st" by (simp add: length_mark_seats)
  then show "mark_seats S st ! i = mark_seats S' st ! i"
    using assms by (simp add: mark_seats_nth)
qed

lemma bookSeats_set_eq:
  "set S = set S' \<Longrightarrow> bookSeats S st = bookSeats S' st"
  using mark_seats_set_eq [of S S' st] by (simp add: bookSeats_def seats_bookable_iff)

text \<open>
  C1. For every seat-number list \<open>S\<close> and every ledger \<open>A\<close> of 20 seats,
  \<open>bookSeats\<close> returns true iff every element of \<open>S\<close> is in [1,20] and available in
  \<open>A\<close>; on true exactly the seats of \<open>S\<close> are newly booked and every other seat keeps
  its value; on false the ledger is unchanged; the empty list succeeds without mutation;
  duplicates in \<open>S\<close> change nothing (the call behaves as on the duplicate-free list).
\<close>

theorem bookSeats_all_or_nothing:
  assumes "length A = 20"
  shows "(fst (bookSeats S A) \<longleftrightarrow>
            (\<forall>s \<in> set S. 1 \<le> unat s \<and> unat s \<le> 20 \<and> \<not> A ! (unat s - 1)))
       \<and> (fst (bookSeats S A) \<longrightarrow>
            length (snd (bookSeats S A)) = 20 \<and>
            (\<forall>i < 20. snd (bookSeats S A) ! i \<longleftrightarrow> (A ! i \<or> (\<exists>s \<in> set S. unat s = i + 1))))
       \<and> (\<not> fst (bookSeats S A) \<longrightarrow> snd (bookSeats S A) = A)
       \<and> bookSeats [] A = (True, A)
       \<and> bookSeats S A = bookSeats (remdups S) A"
proof -
  have ok: "fst (bookSeats S A) \<longleftrightarrow>
            (\<forall>s \<in> set S. 1 \<le> unat s \<and> unat s \<le> 20 \<and> \<not> A ! (unat s - 1))"
    using assms by (simp add: bookSeats_def seats_bookable_iff)
  have upd: "snd (bookSeats S A) ! i \<longleftrightarrow> (A ! i \<or> (\<exists>s \<in> set S. unat s = i + 1))"
    if "fst (bookSeats S A)" and "i < 20" for i
  proof -
    from that(1) have b: "seats_bookable S A" by (simp add: bookSeats_def split: if_splits)
    then have pos: "\<forall>s \<in> set S. 1 \<le> unat s" by (simp add: seats_bookable_iff)
    have "mark_seats S A ! i \<longleftrightarrow> (A ! i \<or> (\<exists>s \<in> set S. unat s - 1 = i))"
      using that(2) assms by (simp add: mark_seats_nth)
    moreover have "(\<exists>s \<in> set S. unat s - 1 = i) \<longleftrightarrow> (\<exists>s \<in> set S. unat s = i + 1)"
      using pos by (rule pred_seat_eq)
    ultimately show ?thesis using b by (simp add: bookSeats_def)
  qed
  have len: "length (snd (bookSeats S A)) = 20"
    using assms by (simp add: bookSeats_def length_mark_seats)
  have fail: "\<not> fst (bookSeats S A) \<longrightarrow> snd (bookSeats S A) = A"
    by (simp add: bookSeats_def)
  have emp: "bookSeats [] A = (True, A)"
    by (simp add: bookSeats_def)
  have dup: "bookSeats S A = bookSeats (remdups S) A"
    by (rule bookSeats_set_eq) simp
  from ok upd len fail emp dup show ?thesis by blast
qed

theorem bookSeats_all_or_nothing_witness:
  "bookSeats [3, 4, 3] (replicate 20 False)
     = (True, [False, False, True, True] @ replicate 16 False)
   \<and> bookSeats [3, 4, 3] (replicate 20 False) = bookSeats (remdups [3, 4, 3]) (replicate 20 False)
   \<and> \<not> fst (bookSeats [2, 21] (replicate 20 False))
   \<and> snd (bookSeats [2, 21] (replicate 20 False)) = replicate 20 False"
proof -
  have l: "length (replicate 20 False) = 20" by simp
  have e: "bookSeats [3, 4, 3] (replicate 20 False)
     = (True, [False, False, True, True] @ replicate 16 False)"
    by code_simp
  have n: "\<not> fst (bookSeats [2, 21] (replicate 20 False))"
    by code_simp
  from bookSeats_all_or_nothing [OF l, of "[3, 4, 3]"] bookSeats_all_or_nothing [OF l, of "[2, 21]"] e n
  show ?thesis by blast
qed


subsection \<open>The seat vector keeps its length\<close>

lemma length_seats_bookSeats: "length (snd (bookSeats S st)) = length st"
  by (simp add: bookSeats_def length_mark_seats)

lemma length_seats_updateSeatAvailability:
  "length (seats (updateSeatAvailability seatStatus s)) = length (seats s)"
  by (simp add: updateSeatAvailability_def)

lemma length_seats_apply_op: "length (seats (apply_op s op)) = length (seats s)"
  by (cases op) (simp_all add: length_seats_bookSeats length_seats_updateSeatAvailability)

lemma length_seats_foldl_apply_op: "length (seats (foldl apply_op s ops)) = length (seats s)"
  by (induction ops arbitrary: s) (simp_all add: length_seats_apply_op)

text \<open>
  C10. \<open>updateSeatAvailability\<close> replaces the bitmap exactly when the supplied vector
  has the current length and otherwise changes nothing; the constructor creates 20
  seats, so after any sequence of operations on a \<open>Shows\<close> value the seat vector has
  length 20 (and an update of any other length than 20 is then ignored).
\<close>

theorem updateSeatAvailability_keeps_20_seats:
  "(length seatStatus = length (seats s) \<longrightarrow>
       updateSeatAvailability seatStatus s = s\<lparr>seats := seatStatus\<rparr>)
   \<and> (length seatStatus \<noteq> length (seats s) \<longrightarrow> updateSeatAvailability seatStatus s = s)
   \<and> length (seats (Shows_ctor m dt t)) = 20
   \<and> length (seats (foldl apply_op (Shows_ctor m dt t) ops)) = 20
   \<and> (length seatStatus \<noteq> 20 \<longrightarrow>
        updateSeatAvailability seatStatus (foldl apply_op (Shows_ctor m dt t) ops)
          = foldl apply_op (Shows_ctor m dt t) ops)"
proof -
  have ctor: "length (seats (Shows_ctor m dt t)) = 20"
    by (simp add: Shows_ctor_def)
  have inv: "length (seats (foldl apply_op (Shows_ctor m dt t) ops)) = 20"
    by (simp add: length_seats_foldl_apply_op ctor)
  have upd: "length seatStatus = length (seats s) \<longrightarrow>
       updateSeatAvailability seatStatus s = s\<lparr>seats := seatStatus\<rparr>"
    by (simp add: updateSeatAvailability_def)
  have keep: "length seatStatus \<noteq> length (seats s') \<longrightarrow> updateSeatAvailability seatStatus s' = s'"
    for s'
    by (simp add: updateSeatAvailability_def)
  from ctor inv upd keep [of s] keep [of "foldl apply_op (Shows_ctor m dt t) ops"]
  show ?thesis by simp
qed

theorem updateSeatAvailability_keeps_20_seats_witness:
  "updateSeatAvailability (replicate 20 True) (Shows_ctor ''Tenet'' ''2025-09-11 19:30'' ''IMAX'')
     = (Shows_ctor ''Tenet'' ''2025-09-11 19:30'' ''IMAX'')\<lparr>seats := replicate 20 True\<rparr>
   \<and> updateSeatAvailability [True, False] (Shows_ctor ''Tenet'' ''2025-09-11 19:30'' ''IMAX'')
     = Shows_ctor ''Tenet'' ''2025-09-11 19:30'' ''IMAX''
   \<and> length (seats (foldl apply_op (Shows_ctor ''Tenet'' ''2025-09-11 19:30'' ''IMAX'')
        [UpdateSeatAvailability [True], BookSeats [1, 2], GetAvailableSeats,
         UpdateSeatAvailability (replicate 20 True)])) = 20"
proof -
  let ?s = "Shows_ctor ''Tenet'' ''2025-09-11 19:30'' ''IMAX''"
  have l: "length (replicate 20 True) = length (seats ?s)"
    by (simp add: Shows_ctor_def)
  have n: "length [True, False] \<noteq> length (seats ?s)"
    by (simp add: Shows_ctor_def)
  from updateSeatAvailability_keeps_20_seats [of "replicate 20 True" ?s] l
  have a: "updateSeatAvailability (replicate 20 True) ?s = ?s\<lparr>seats := replicate 20 True\<rparr>"
    by blast
  from updateSeatAvailability_keeps_20_seats [of "[True, False]" ?s] n
  have b: "updateSeatAvailability [True, False] ?s = ?s"
    by blast
  from updateSeatAvailability_keeps_20_seats
    [of "[]" ?s "''Tenet''" "''2025-09-11 19:30''" "''IMAX''"
        "[UpdateSeatAvailability [True], BookSeats [1, 2], GetAvailableSeats,
          UpdateSeatAvailability (replicate 20 True)]"]
  have c: "length (seats (foldl apply_op ?s
        [UpdateSeatAvailability [True], BookSeats [1, 2], GetAvailableSeats,
         UpdateSeatAvailability (replicate 20 True)])) = 20"
    by blast
  from a b c show ?thesis by blast
qed

subsection \<open>The send queue of a session\<close>




lemma fifo_send_message:
  "ws_written (send_message msg s) @ message_queue (send_message msg s)
     = ws_written s @ message_queue s @ [msg]"
  by (cases "message_queue s") (simp_all add: send_message_def do_write_def Let_def)








subsection \<open>Registration of a session\<close>

text \<open>
  C8 (as claimed). A session is never in the registry before its handshake has
  completed. This fails: \<open>run\<close> registers the session and only then starts the
  handshake, so right after \<open>run\<close> the session is registered with the handshake pending
  and nothing enqueued.
\<close>

theorem run_registers_before_handshake_counterexample:
  "0 \<in> sessions (run 0 (new_server []))
   \<and> ws_handshake (session_of (run 0 (new_server [])) 0) = Pending
   \<and> ws_handshake (session_of (run 0 (new_server [])) 0) \<noteq> Completed
   \<and> message_queue (session_of (run 0 (new_server [])) 0) = []
   \<and> ws_written (session_of (run 0 (new_server [])) 0) = []"
  by (simp add: run_def addSession_def new_server_def new_session_def)

text \<open>
  C8 (amended). \<open>run\<close> registers the session before the handshake, which is then
  pending. When the handshake fails, \<open>on_accept\<close> removes the session from the registry
  and enqueues nothing. When it succeeds, \<open>on_accept\<close> leaves the registry as it is
  and enqueues the initial snapshot to the session: the snapshot is the last message
  handed to the transport or waiting in the queue.
\<close>

theorem session_registration:
  "sid \<in> sessions (run sid srv)
   \<and> ws_handshake (session_of (run sid srv) sid) = Pending
   \<and> message_queue (session_of (run sid srv) sid) = message_queue (session_of srv sid)
   \<and> ws_written (session_of (run sid srv) sid) = ws_written (session_of srv sid)
   \<and> sid \<notin> sessions (on_accept True sid srv)
   \<and> message_queue (session_of (on_accept True sid srv) sid) = message_queue (session_of srv sid)
   \<and> ws_written (session_of (on_accept True sid srv) sid) = ws_written (session_of srv sid)
   \<and> sessions (on_accept False sid srv) = sessions srv
   \<and> ws_handshake (session_of (on_accept False sid srv) sid) = Completed
   \<and> ws_written (session_of (on_accept False sid srv) sid)
        @ message_queue (session_of (on_accept False sid srv) sid)
      = ws_written (session_of srv sid) @ message_queue (session_of srv sid)
        @ [formatCinemaData (catalog srv)]"
proof -
  have r: "sid \<in> sessions (run sid srv)
     \<and> ws_handshake (session_of (run sid srv) sid) = Pending
     \<and> message_queue (session_of (run sid srv) sid) = message_queue (session_of srv sid)
     \<and> ws_written (session_of (run sid srv) sid) = ws_written (session_of srv sid)"
    by (simp add: run_def addSession_def Let_def)
  have f: "sid \<notin> sessions (on_accept True sid srv)
     \<and> message_queue (session_of (on_accept True sid srv) sid) = message_queue (session_of srv sid)
     \<and> ws_written (session_of (on_accept True sid srv) sid) = ws_written (session_of srv sid)"
    by (simp add: on_accept_def removeSession_def)
  have a: "sessions (on_accept False sid srv) = sessions srv"
    by (simp add: on_accept_def)
  have h: "ws_handshake (session_of (on_accept False sid srv) sid) = Completed"
    by (simp add: on_accept_def send_message_def do_write_def Let_def)
  have q: "ws_written (session_of (on_accept False sid srv) sid)
        @ message_queue (session_of (on_accept False sid srv) sid)
      = ws_written (session_of srv sid) @ message_queue (session_of srv sid)
        @ [formatCinemaData (catalog srv)]"
    using fifo_send_message
      [of "getInitialData srv" "(session_of srv sid)\<lparr>ws_handshake := Completed\<rparr>"]
    by (simp add: on_accept_def getInitialData_def)
  from r f a h q show ?thesis by blast
qed

theorem session_registration_witness:
  "0 \<in> sessions (run 0 (new_server []))
   \<and> 0 \<notin> sessions (on_accept True 0 (run 0 (new_server [])))
   \<and> sessions (on_accept False 0 (run 0 (new_server []))) = {0}
   \<and> ws_written (session_of (on_accept False 0 (run 0 (new_server []))) 0)
        @ message_queue (session_of (on_accept False 0 (run 0 (new_server []))) 0)
      = [formatCinemaData []]"
  using session_registration [of 0 "new_server []"]
        session_registration [of 0 "run 0 (new_server [])"]
  by (simp add: run_def addSession_def new_server_def new_session_def)

subsection \<open>Splitting on a delimiter\<close>





subsection \<open>The seat loop of processBooking\<close>

lemma uint_seat: "0 < v \<Longrightarrow> v \<le> 20 \<Longrightarrow> uint (of_int v :: uint8) = v"
  by (simp add: uint_word_of_int take_bit_int_eq_self)

lemma seat_loop_Inr:
  "seat_loop ps acc snap = Inr sn \<Longrightarrow>
     (\<exists>new. sn = acc @ new \<and> map (\<lambda>w. Inr (uint w)) new = map stoi ps)
     \<and> (\<forall>p \<in> set ps. seat_field_ok p)"
proof (induction ps arbitrary: acc)
  case Nil
  then show ?case by simp
next
  case (Cons p ps)
  from Cons.prems obtain v where v: "stoi p = Inr v" "0 < v" "v \<le> 20"
    and rest: "seat_loop ps (acc @ [of_int v]) snap = Inr sn"
    by (auto split: sum.splits if_splits)
  from Cons.IH [OF rest] obtain new where
    new: "sn = (acc @ [of_int v]) @ new" "map (\<lambda>w. Inr (uint w)) new = map stoi ps"
    and ok: "\<forall>p \<in> set ps. seat_field_ok p"
    by blast
  have "sn = acc @ (of_int v # new)" using new(1) by simp
  moreover have "map (\<lambda>w. Inr (uint w)) ((of_int v :: uint8) # new) = map stoi (p # ps)"
    using new(2) v by (simp add: uint_seat)
  moreover have "seat_field_ok p" using v by (simp add: seat_field_ok_def)
  ultimately show ?case using ok by auto
qed






subsection \<open>processBooking, path by path\<close>






lemma processBooking_booked:
  assumes "\<not> length (getlines CHR '','' msg) < 3"
    and "seat_loop (drop 2 (getlines CHR '','' msg)) [] (formatCinemaData shows) = Inr sn"
    and "find_show (getlines CHR '','' msg ! 0) (getlines CHR '','' msg ! 1) shows = Some i"
    and "fst (bookSeats sn (seats (shows ! i)))"
  shows "processBooking msg shows =
       (\<lparr>success = True,
         message = ''SUCCESS: Booked seats '' @ join_seats sn @ '' for ''
                   @ getlines CHR '','' msg ! 1 @ '' at '' @ getlines CHR '','' msg ! 0
                   @ ''\<newline>\<newline>''
                   @ formatCinemaData
                       (shows[i := (shows ! i)\<lparr>seats := snd (bookSeats sn (seats (shows ! i)))\<rparr>]),
         shouldBroadcast = True\<rparr>,
        shows[i := (shows ! i)\<lparr>seats := snd (bookSeats sn (seats (shows ! i)))\<rparr>])"
  using assms by (simp add: processBooking_def Let_def split_beta)

subsection \<open>Rejected booking requests\<close>



subsection \<open>The message router\<close>

lemma str_find_char: "str_find [c] s \<noteq> None \<longleftrightarrow> c \<in> set s"
  by (induction s) auto

text \<open>
  C6. \<open>handleMessage\<close> is a three-way case split: exactly \<open>get_data\<close> or \<open>refresh\<close>
  returns the initial snapshot without broadcast; otherwise a message with a comma goes
  to \<open>processBooking\<close>, whose text, \<open>shouldBroadcast\<close> and catalog are passed on;
  every other message is echoed with a blank line and the snapshot, without broadcast.
\<close>

theorem handleMessage_three_way:
  "(received = ''get_data'' \<or> received = ''refresh'' \<longrightarrow>
      handleMessage received shows = (formatCinemaData shows, False, shows))
   \<and> (received \<noteq> ''get_data'' \<and> received \<noteq> ''refresh'' \<and> CHR '','' \<in> set received \<longrightarrow>
      handleMessage received shows =
        (message (fst (processBooking received shows)),
         shouldBroadcast (fst (processBooking received shows)),
         snd (processBooking received shows)))
   \<and> (received \<noteq> ''get_data'' \<and> received \<noteq> ''refresh'' \<and> CHR '','' \<notin> set received \<longrightarrow>
      handleMessage received shows =
        (''Echo: '' @ received @ ''\<newline>\<newline>'' @ formatCinemaData shows, False, shows))"
proof -
  have c: "str_find '','' received \<noteq> None \<longleftrightarrow> CHR '','' \<in> set received"
    by (rule str_find_char)
  show ?thesis
    unfolding handleMessage_def c by (simp add: split_beta)
qed

theorem handleMessage_three_way_witness:
  "handleMessage ''refresh'' [inception_pvr] = (formatCinemaData [inception_pvr], False, [inception_pvr])
   \<and> handleMessage ''hello'' [inception_pvr] =
       (''Echo: hello\<newline>\<newline>'' @ formatCinemaData [inception_pvr], False, [inception_pvr])
   \<and> handleMessage ''PVR,Inception'' [inception_pvr] =
       (message (fst (processBooking ''PVR,Inception'' [inception_pvr])),
        shouldBroadcast (fst (processBooking ''PVR,Inception'' [inception_pvr])),
        snd (processBooking ''PVR,Inception'' [inception_pvr]))"
  using handleMessage_three_way [of "''refresh''" "[inception_pvr]"]
        handleMessage_three_way [of "''hello''" "[inception_pvr]"]
        handleMessage_three_way [of "''PVR,Inception''" "[inception_pvr]"]
  by simp

subsection \<open>The success response\<close>

text \<open>
  C4 (as claimed). The success text lists the booked seats in ascending order. This
  fails: the request \<open>PVR,Inception,4,3\<close> on a free show succeeds with broadcast, and
  the text lists the seats as requested, \<open>4, 3\<close>.
\<close>

theorem processBooking_seat_order_counterexample:
  "success (fst (processBooking ''PVR,Inception,4,3'' [inception_pvr]))
   \<and> shouldBroadcast (fst (processBooking ''PVR,Inception,4,3'' [inception_pvr]))
   \<and> prefix ''SUCCESS: Booked seats 4, 3 for Inception at PVR''
        (message (fst (processBooking ''PVR,Inception,4,3'' [inception_pvr])))
   \<and> \<not> prefix ''SUCCESS: Booked seats 3, 4''
        (message (fst (processBooking ''PVR,Inception,4,3'' [inception_pvr])))"
proof -
  let ?msg = "''PVR,Inception,4,3''"
  have g: "getlines CHR '','' ?msg = [''PVR'', ''Inception'', ''4'', ''3'']"
    by (simp add: getlines_def)
  have s4: "stoi ''4'' = Inr 4" and s3: "stoi ''3'' = Inr 3" by code_simp+
  have n: "\<not> length (getlines CHR '','' ?msg) < 3"
    by (simp add: g)
  have l: "seat_loop (drop 2 (getlines CHR '','' ?msg)) [] (formatCinemaData [inception_pvr])
             = Inr [4, 3]"
    by (simp add: g s4 s3)
  have f: "find_show (getlines CHR '','' ?msg ! 0) (getlines CHR '','' ?msg ! 1) [inception_pvr]
             = Some 0"
    by (simp add: g inception_pvr_def Shows_ctor_def)
  have "fst (bookSeats [4, 3] (seats inception_pvr))"
    unfolding inception_pvr_def Shows_ctor_def by code_simp
  then have b: "fst (bookSeats [4, 3] (seats ([inception_pvr] ! 0)))" by simp
  have j: "join_seats [4, 3] = ''4, 3''" by code_simp
  show ?thesis
    unfolding processBooking_booked [OF n l f b] j g by simp
qed

text \<open>
  C4 (amended). For every booking request with at least 3 fields whose seat fields all
  pass the seat loop, that matches a show and whose reservation succeeds,
  \<open>processBooking\<close> returns success and \<open>shouldBroadcast\<close>, and the text
  \<open>SUCCESS: Booked seats\<close>, the seat numbers in the order of the request's fields
  (each the value \<open>stoi\<close> gives for its field, duplicates repeated), then
  \<open>for <movie> at <theater>\<close>, a blank line and the snapshot of the catalog after the
  booking.
\<close>

theorem processBooking_success_response:
  assumes "3 \<le> length (getlines CHR '','' msg)"
    and "seat_loop (drop 2 (getlines CHR '','' msg)) [] (formatCinemaData shows) = Inr seatNumbers"
    and "find_show (getlines CHR '','' msg ! 0) (getlines CHR '','' msg ! 1) shows = Some i"
    and "fst (bookSeats seatNumbers (seats (shows ! i)))"
  shows "fst (processBooking msg shows) =
           \<lparr>success = True,
            message = ''SUCCESS: Booked seats '' @ join_seats seatNumbers @ '' for ''
                      @ getlines CHR '','' msg ! 1 @ '' at '' @ getlines CHR '','' msg ! 0
                      @ ''\<newline>\<newline>'' @ formatCinemaData (snd (processBooking msg shows)),
            shouldBroadcast = True\<rparr>
       \<and> snd (processBooking msg shows) =
           shows[i := (shows ! i)\<lparr>seats := snd (bookSeats seatNumbers (seats (shows ! i)))\<rparr>]
       \<and> map (\<lambda>w. Inr (uint w)) seatNumbers = map stoi (drop 2 (getlines CHR '','' msg))"
proof -
  from assms(1) have n: "\<not> length (getlines CHR '','' msg) < 3" by simp
  from seat_loop_Inr [OF assms(2)]
  have order: "map (\<lambda>w. Inr (uint w)) seatNumbers = map stoi (drop 2 (getlines CHR '','' msg))"
    by auto
  from processBooking_booked [OF n assms(2) assms(3) assms(4)] order
  show ?thesis by simp
qed

theorem processBooking_success_response_witness:
  "fst (processBooking ''PVR,Inception,4,3,4'' [inception_pvr]) =
     \<lparr>success = True,
      message = ''SUCCESS: Booked seats 4, 3, 4 for Inception at PVR\<newline>\<newline>''
                @ formatCinemaData (snd (processBooking ''PVR,Inception,4,3,4'' [inception_pvr])),
      shouldBroadcast = True\<rparr>
   \<and> snd (processBooking ''PVR,Inception,4,3,4'' [inception_pvr]) =
       [inception_pvr\<lparr>seats := [False, False, True, True] @ replicate 16 False\<rparr>]"
proof -
  let ?msg = "''PVR,Inception,4,3,4''"
  have g: "getlines CHR '','' ?msg = [''PVR'', ''Inception'', ''4'', ''3'', ''4'']"
    by (simp add: getlines_def)
  have s4: "stoi ''4'' = Inr 4" and s3: "stoi ''3'' = Inr 3" by code_simp+
  have n: "3 \<le> length (getlines CHR '','' ?msg)"
    by (simp add: g)
  have l: "seat_loop (drop 2 (getlines CHR '','' ?msg)) [] (formatCinemaData [inception_pvr])
             = Inr [4, 3, 4]"
    by (simp add: g s4 s3)
  have f: "find_show (getlines CHR '','' ?msg ! 0) (getlines CHR '','' ?msg ! 1) [inception_pvr]
             = Some 0"
    by (simp add: g inception_pvr_def Shows_ctor_def)
  have bk: "bookSeats [4, 3, 4] (seats inception_pvr)
             = (True, [False, False, True, True] @ replicate 16 False)"
    unfolding inception_pvr_def Shows_ctor_def by code_simp
  then have b: "fst (bookSeats [4, 3, 4] (seats ([inception_pvr] ! 0)))" by simp
  have j: "join_seats [4, 3, 4] = ''4, 3, 4''" by code_simp
  have e: "[inception_pvr][0 := ([inception_pvr] ! 0)
             \<lparr>seats := snd (bookSeats [4, 3, 4] (seats ([inception_pvr] ! 0)))\<rparr>]
           = [inception_pvr\<lparr>seats := [False, False, True, True] @ replicate 16 False\<rparr>]"
    by (simp add: bk)
  from processBooking_success_response [OF n l f b]
  show ?thesis
    unfolding j g e by simp
qed

subsection \<open>Decimal digits: printing and reading back\<close>

lemma digit_cases: "d < 10 \<Longrightarrow> d \<in> {0, 1, 2, 3, 4, 5, 6, 7, 8, 9::nat}"
  by auto

lemma digit_char_isdigit: "d < 10 \<Longrightarrow> isdigit (digit_char d)"
  using digit_cases [of d] by (auto simp: isdigit_def digit_char_def)

lemma digit_val_digit_char: "d < 10 \<Longrightarrow> digit_val (digit_char d) = d"
  using digit_cases [of d] by (auto simp: digit_val_def digit_char_def)

lemma isdigit_plain:
  "isdigit c \<Longrightarrow> \<not> isspace c \<and> c \<noteq> CHR '','' \<and> c \<noteq> CHR ''-'' \<and> c \<noteq> CHR ''+''
     \<and> c \<noteq> CHR ''('' \<and> c \<noteq> CHR '')'' \<and> c \<noteq> CHR '':'' \<and> c \<noteq> CHR ''\<newline>''"
  by (auto simp: isdigit_def isspace_def)

lemma to_string_digits: "c \<in> set (to_string n) \<Longrightarrow> isdigit c"
proof (induction n arbitrary: c rule: to_string.induct)
  case (1 n)
  show ?case
  proof (cases "n < 10")
    case True
    with "1.prems" show ?thesis
      by (simp add: to_string.simps [of n] digit_char_isdigit)
  next
    case False
    with "1.prems" have "c \<in> set (to_string (n div 10)) \<or> c = digit_char (n mod 10)"
      by (auto simp: to_string.simps [of n])
    then show ?thesis
      using "1.IH" [OF False] by (auto simp: digit_char_isdigit)
  qed
qed

lemma to_string_nonempty: "to_string n \<noteq> []"
  by (simp add: to_string.simps [of n])

lemma digits_value_snoc: "digits_value (ds @ [c]) = 10 * digits_value ds + digit_val c"
  by (simp add: digits_value_def)

lemma digits_value_to_string: "digits_value (to_string n) = n"
proof (induction n rule: to_string.induct)
  case (1 n)
  show ?case
  proof (cases "n < 10")
    case True
    then show ?thesis
      by (simp add: to_string.simps [of n] digits_value_def digit_val_digit_char)
  next
    case False
    then have "digits_value (to_string n) = 10 * digits_value (to_string (n div 10)) + n mod 10"
      by (simp add: to_string.simps [of n] digits_value_snoc digit_val_digit_char)
    with "1.IH" [OF False] show ?thesis by simp
  qed
qed

lemma stoi_to_string:
  assumes "n \<le> 2147483647"
  shows "stoi (to_string n) = Inr (int n)"
proof -
  obtain c cs where s: "to_string n = c # cs"
    using to_string_nonempty [of n] by (cases "to_string n") auto
  have dig: "\<forall>x \<in> set (to_string n). isdigit x"
    using to_string_digits by blast
  with s have c: "isdigit c" by simp
  then have plain: "\<not> isspace c" "c \<noteq> CHR ''-''" "c \<noteq> CHR ''+''"
    using isdigit_plain by blast+
  have d: "dropWhile isspace (to_string n) = to_string n"
    using s plain(1) by simp
  have h: "hd (to_string n) \<noteq> CHR ''-''" "hd (to_string n) \<noteq> CHR ''+''"
    using s plain(2,3) by simp_all
  have t: "takeWhile isdigit (to_string n) = to_string n"
    using dig by (simp add: takeWhile_eq_all_conv)
  show ?thesis
    using assms
    by (simp add: stoi_def Let_def d h t to_string_nonempty digits_value_to_string)
qed

subsection \<open>Searching a string\<close>

lemma str_find_prefix: "prefix pat s \<Longrightarrow> str_find pat s = Some 0"
  by (cases s) auto

lemma not_prefix_fresh_char:
  assumes "c \<notin> set p1" and "c \<notin> set (x # a)"
  shows "\<not> prefix (p1 @ c # p2) (x # a @ p1 @ c # rest)"
proof
  assume "prefix (p1 @ c # p2) (x # a @ p1 @ c # rest)"
  then obtain zs where "x # a @ p1 @ c # rest = (p1 @ c # p2) @ zs"
    by (auto simp: prefix_def)
  then have "take (Suc (length p1)) (x # a @ p1 @ c # rest) = take (Suc (length p1)) ((p1 @ c # p2) @ zs)"
    by simp
  then have "x # take (length p1) (a @ p1) = p1 @ [c]"
    by simp
  then have "c \<in> set (x # take (length p1) (a @ p1))"
    by simp
  then have "c \<in> set (x # a @ p1)"
    using set_take_subset [of "length p1" "a @ p1"] by auto
  with assms show False by auto
qed

lemma str_find_first:
  assumes "c \<notin> set p1" and "c \<notin> set a"
  shows "str_find (p1 @ c # p2) (a @ p1 @ c # p2 @ rest) = Some (length a)"
  using assms(2)
proof (induction a)
  case Nil
  show ?case by (simp add: str_find_prefix)
next
  case (Cons x a)
  then have "c \<notin> set a" and fresh: "c \<notin> set (x # a)" by simp_all
  from not_prefix_fresh_char [OF assms(1) fresh, of p2 "p2 @ rest"] Cons.IH [OF \<open>c \<notin> set a\<close>]
  show ?case by simp
qed

lemma str_find_absent: "c \<in> set pat \<Longrightarrow> c \<notin> set s \<Longrightarrow> str_find pat s = None"
proof (induction s)
  case Nil
  then show ?case by auto
next
  case (Cons x s)
  have "\<not> prefix pat (x # s)"
  proof
    assume "prefix pat (x # s)"
    then have "set pat \<subseteq> set (x # s)" by (rule set_mono_prefix)
    with Cons.prems show False by auto
  qed
  moreover have "str_find pat s = None" using Cons by simp
  ultimately show ?case by simp
qed

subsection \<open>Lines and tokens\<close>

lemma getline_loop_line:
  "delim \<notin> set l \<Longrightarrow>
     getline_loop delim item (l @ delim # rest) = (item @ l) # getline_loop delim [] rest"
  by (induction l arbitrary: item) auto

lemma parse_lines_Nil: "parse_lines st [] = st"
  by (simp add: parse_lines_def getlines_def)

lemma parse_lines_line:
  "CHR ''\<newline>'' \<notin> set l \<Longrightarrow>
     parse_lines st (l @ CHR ''\<newline>'' # rest) = parse_lines (parse_line l st) rest"
  by (simp add: parse_lines_def getlines_def getline_loop_line)

lemma token_loop_word:
  "\<forall>c \<in> set w. \<not> isspace c \<Longrightarrow> token_loop tok (w @ rest) = token_loop (tok @ w) rest"
  by (induction w arbitrary: tok) auto

subsection \<open>The seats line read back\<close>

lemma seat_token_plain:
  assumes "1 \<le> n" and "n \<le> 20"
  shows "seat_token_loop (to_string n # rest) st = seat_token_loop rest (st[n - 1 := False])"
proof -
  have "last (to_string n) \<in> set (to_string n)"
    using to_string_nonempty by simp
  then have "last (to_string n) \<noteq> CHR '',''"
    using to_string_digits isdigit_plain by blast
  moreover have "stoi (to_string n) = Inr (int n)"
    using assms by (intro stoi_to_string) simp
  moreover have "nat (int n - 1) = n - 1" by simp
  ultimately show ?thesis using assms by (simp add: Let_def)
qed

lemma seat_token_comma:
  assumes "1 \<le> n" and "n \<le> 20"
  shows "seat_token_loop ((to_string n @ '','') # rest) st
           = seat_token_loop rest (st[n - 1 := False])"
proof -
  have "stoi (to_string n) = Inr (int n)"
    using assms by (intro stoi_to_string) simp
  moreover have "nat (int n - 1) = n - 1" by simp
  ultimately show ?thesis using assms by (simp add: Let_def)
qed

lemma to_string_no_space: "\<forall>c \<in> set (to_string n). \<not> isspace c"
  using to_string_digits isdigit_plain by blast

lemma seat_tokens_join:
  "\<forall>x \<in> set av. 1 \<le> unat x \<and> unat x \<le> 20 \<Longrightarrow>
     seat_token_loop (token_loop [] (join_seats av @ '' '')) st = clear_seats av st"
proof (induction av arbitrary: st rule: join_seats.induct)
  case 1
  show ?case by (simp add: isspace_def clear_seats_def)
next
  case (2 x)
  have "token_loop [] (to_string (unat x) @ '' '') = [to_string (unat x)]"
    using token_loop_word [OF to_string_no_space, of "[]" "unat x" "'' ''"]
    by (simp add: isspace_def to_string_nonempty)
  moreover have "seat_token_loop [to_string (unat x)] st = seat_token_loop [] (st[unat x - 1 := False])"
    using 2 by (intro seat_token_plain) simp_all
  ultimately show ?case
    by (simp add: clear_seats_def del: seat_token_loop.simps(2))
next
  case (3 x y rest)
  let ?w = "to_string (unat x) @ '',''"
  have w: "\<forall>c \<in> set ?w. \<not> isspace c"
    using to_string_no_space [of "unat x"] by (auto simp: isspace_def)
  have "join_seats (x # y # rest) @ '' '' = ?w @ CHR '' '' # (join_seats (y # rest) @ '' '')"
    by simp
  then have "token_loop [] (join_seats (x # y # rest) @ '' '')
               = ?w # token_loop [] (join_seats (y # rest) @ '' '')"
    using token_loop_word [OF w, of "[]" "CHR '' '' # (join_seats (y # rest) @ '' '')"]
    by (simp add: isspace_def)
  moreover have "seat_token_loop (token_loop [] (join_seats (y # rest) @ '' ''))
                   (st[unat x - 1 := False])
                 = clear_seats (y # rest) (st[unat x - 1 := False])"
    using "3.prems" by (intro "3.IH") simp
  moreover have "seat_token_loop (?w # token_loop [] (join_seats (y # rest) @ '' '')) st
                   = seat_token_loop (token_loop [] (join_seats (y # rest) @ '' ''))
                       (st[unat x - 1 := False])"
    using "3.prems" by (intro seat_token_comma) simp_all
  ultimately show ?case
    by (simp add: clear_seats_def del: seat_token_loop.simps(2) join_seats.simps)
qed

lemma join_seats_chars:
  "c \<in> set (join_seats av) \<Longrightarrow> isdigit c \<or> c = CHR '','' \<or> c = CHR '' ''"
  by (induction av rule: join_seats.induct) (auto dest: to_string_digits)

lemma join_seats_plain:
  "CHR ''('' \<notin> set (join_seats av) \<and> CHR ''\<newline>'' \<notin> set (join_seats av)
     \<and> CHR '':'' \<notin> set (join_seats av)"
  using join_seats_chars [of _ av] isdigit_plain by blast

lemma to_string_plain:
  "CHR ''('' \<notin> set (to_string n) \<and> CHR ''\<newline>'' \<notin> set (to_string n)"
  using to_string_digits [of _ n] isdigit_plain by blast

lemma length_clear_seats: "length (clear_seats av st) = length st"
  unfolding clear_seats_def by (induction av arbitrary: st) auto

lemma upd_False_nth: "i < length st \<Longrightarrow> st[j := False] ! i \<longleftrightarrow> (st ! i \<and> j \<noteq> i)"
  by (cases "j = i") simp_all

lemma clear_seats_nth:
  "i < length st \<Longrightarrow>
     clear_seats av st ! i \<longleftrightarrow> (st ! i \<and> \<not> (\<exists>x \<in> set av. unat x - 1 = i))"
  unfolding clear_seats_def
proof (induction av arbitrary: st)
  case Nil
  then show ?case by simp
next
  case (Cons a av)
  have "fold (\<lambda>x st. st[unat x - 1 := False]) (a # av) st ! i
          \<longleftrightarrow> fold (\<lambda>x st. st[unat x - 1 := False]) av (st[unat a - 1 := False]) ! i"
    by simp
  also have "\<dots> \<longleftrightarrow> (st[unat a - 1 := False] ! i \<and> \<not> (\<exists>x \<in> set av. unat x - 1 = i))"
    using Cons.prems by (intro Cons.IH) simp
  also have "\<dots> \<longleftrightarrow> (st ! i \<and> \<not> (\<exists>x \<in> set (a # av). unat x - 1 = i))"
    using Cons.prems by (auto simp: upd_False_nth)
  finally show ?case .
qed

lemma unat_seat_number: "i < 255 \<Longrightarrow> unat (of_nat (Suc i) :: uint8) = Suc i"
  unfolding unat_of_nat by simp

lemma set_getAvailableSeats:
  "set (getAvailableSeats s)
     = (\<lambda>i. of_nat (Suc i)) ` {i. i < length (seats s) \<and> \<not> seats s ! i}"
  unfolding getAvailableSeats_def by auto

lemma getAvailableSeats_range:
  assumes "length (seats s) = 20"
  shows "\<forall>x \<in> set (getAvailableSeats s). 1 \<le> unat x \<and> unat x \<le> 20"
proof
  fix x assume "x \<in> set (getAvailableSeats s)"
  then obtain i where i: "i < 20" "x = of_nat (Suc i)"
    unfolding set_getAvailableSeats using assms by auto
  then have "unat x = Suc i" using unat_seat_number [of i] by simp
  with i(1) show "1 \<le> unat x \<and> unat x \<le> 20" by simp
qed

lemma getAvailableSeats_member:
  assumes "length (seats s) = 20" and "i < 20"
  shows "(\<exists>x \<in> set (getAvailableSeats s). unat x - 1 = i) \<longleftrightarrow> \<not> seats s ! i"
proof
  assume "\<exists>x \<in> set (getAvailableSeats s). unat x - 1 = i"
  then obtain x where x: "x \<in> set (getAvailableSeats s)" "unat x - 1 = i" by blast
  from x(1) obtain k where k: "k < 20" "\<not> seats s ! k" "x = of_nat (Suc k)"
    unfolding set_getAvailableSeats using assms(1) by auto
  then have "unat x = Suc k" using unat_seat_number [of k] by simp
  with x(2) have "k = i" by simp
  with k(2) show "\<not> seats s ! i" by simp
next
  assume "\<not> seats s ! i"
  with assms have "i \<in> {i. i < length (seats s) \<and> \<not> seats s ! i}"
    by simp
  then have "(of_nat (Suc i) :: uint8) \<in> set (getAvailableSeats s)"
    unfolding set_getAvailableSeats by (rule imageI)
  moreover have "unat (of_nat (Suc i) :: uint8) - 1 = i"
    using assms(2) unat_seat_number [of i] by simp
  ultimately show "\<exists>x \<in> set (getAvailableSeats s). unat x - 1 = i" by blast
qed

lemma clear_available_seats:
  assumes "length (seats s) = 20"
  shows "clear_seats (getAvailableSeats s) (replicate 20 True) = seats s"
proof (rule nth_equalityI)
  show "length (clear_seats (getAvailableSeats s) (replicate 20 True)) = length (seats s)"
    using assms by (simp add: length_clear_seats)
next
  fix i assume "i < length (clear_seats (getAvailableSeats s) (replicate 20 True))"
  then have i: "i < 20" by (simp add: length_clear_seats)
  then have "clear_seats (getAvailableSeats s) (replicate 20 True) ! i
               \<longleftrightarrow> \<not> (\<exists>x \<in> set (getAvailableSeats s). unat x - 1 = i)"
    by (simp add: clear_seats_nth)
  with getAvailableSeats_member [OF assms i]
  show "clear_seats (getAvailableSeats s) (replicate 20 True) ! i = seats s ! i"
    by simp
qed

subsection \<open>The parser on the lines of a snapshot\<close>

lemma str_find_zero_iff: "str_find pat s = Some 0 \<longleftrightarrow> prefix pat s"
  by (cases s) auto

lemma parse_line_other:
  "\<not> prefix ''Theater: '' l \<Longrightarrow> \<not> prefix ''  Movie: '' l \<Longrightarrow>
   str_find ''    Available seats:'' l = None \<Longrightarrow> parse_line l st = st"
  by (simp add: parse_line_def str_find_zero_iff)

lemma parse_line_header: "parse_line ''=== CINEMA DATA STREAM ==='' st = st"
  by (rule parse_line_other) (simp_all add: str_find_absent [of "CHR '':''"])

lemma parse_line_footer: "parse_line ''=== END CINEMA DATA ==='' st = st"
  by (rule parse_line_other) (simp_all add: str_find_absent [of "CHR '':''"])

lemma parse_line_blank: "parse_line [] st = st"
  by (rule parse_line_other) simp_all

lemma parse_line_theater:
  "parse_line (''Theater: '' @ t) st = st\<lparr>currentTheater := t, currentShow := None\<rparr>"
  by (simp add: parse_line_def str_find_zero_iff)

lemma parse_line_movie:
  assumes "wire_safe s" and "currentTheater st = theater s"
  shows "parse_line (movie_line s) st =
           st\<lparr>client_shows := client_shows st @ [Shows_ctor (movie s) (dateTime s) (theater s)],
              currentShow := Some (length (client_shows st))\<rparr>"
proof -
  let ?ml = "movie s @ '' ('' @ dateTime s @ '')''"
  from assms(1) have m: "CHR ''('' \<notin> set (movie s)" "CHR '')'' \<notin> set (movie s)"
    and d: "dateTime s \<noteq> []" "CHR '')'' \<notin> set (dateTime s)"
    and t: "theater s \<noteq> []"
    by (simp_all add: wire_safe_def)
  have f1: "str_find '' ('' ?ml = Some (length (movie s))"
    using str_find_first [of "CHR ''(''" "'' ''" "movie s" "[]" "dateTime s @ '')''"] m(1)
    by simp
  have f2: "str_find ''('' ?ml = Some (length (movie s) + 1)"
    using str_find_first [of "CHR ''(''" "[]" "movie s @ '' ''" "[]" "dateTime s @ '')''"] m(1)
    by simp
  have f3: "str_find '')'' ?ml = Some (length (movie s) + 2 + length (dateTime s))"
    using str_find_first [of "CHR '')''" "[]" "movie s @ '' ('' @ dateTime s" "[]" "[]"] m(2) d(2)
    by simp
  have pre: "\<not> prefix ''Theater: '' (movie_line s)" "prefix ''  Movie: '' (movie_line s)"
    and dr: "drop 9 (movie_line s) = ?ml"
    by (simp_all add: movie_line_def)
  show ?thesis
    unfolding parse_line_def str_find_zero_iff dr
    using pre assms(2) t d(1) f1 f2 f3
    by (simp add: Let_def)
qed

lemma seats_body_plain:
  "CHR ''('' \<notin> set (seats_body s) \<and> CHR ''\<newline>'' \<notin> set (seats_body s)"
  using join_seats_plain [of "getAvailableSeats s"] by (simp add: seats_body_def)

lemma seats_body_tokens:
  assumes "length (seats s) = 20"
  shows "seat_token_loop (tokens ('' '' @ seats_body s @ '' '')) (replicate 20 True) = seats s"
proof (cases "getAvailableSeats s = []")
  case True
  have "stoi ''SOLD'' = Inl invalid_argument" and "stoi ''OUT'' = Inl invalid_argument"
    by code_simp+
  moreover have "tokens '' SOLD OUT '' = [''SOLD'', ''OUT'']"
    by (simp add: tokens_def isspace_def)
  ultimately have "seat_token_loop (tokens ('' '' @ seats_body s @ '' '')) (replicate 20 True)
                     = replicate 20 True"
    using True by (simp add: seats_body_def Let_def)
  also have "\<dots> = clear_seats (getAvailableSeats s) (replicate 20 True)"
    using True by (simp add: clear_seats_def)
  also have "\<dots> = seats s"
    using assms by (rule clear_available_seats)
  finally show ?thesis .
next
  case False
  then have "tokens ('' '' @ seats_body s @ '' '')
               = token_loop [] (join_seats (getAvailableSeats s) @ '' '')"
    by (simp add: tokens_def seats_body_def isspace_def)
  then have "seat_token_loop (tokens ('' '' @ seats_body s @ '' '')) (replicate 20 True)
               = clear_seats (getAvailableSeats s) (replicate 20 True)"
    using seat_tokens_join [OF getAvailableSeats_range [OF assms]] by simp
  also have "\<dots> = seats s"
    using assms by (rule clear_available_seats)
  finally show ?thesis .
qed

lemma parse_line_seats:
  assumes "currentShow st = Some i"
    and "length (seats (client_shows st ! i)) = 20"
    and "length (seats s) = 20"
  shows "parse_line (seats_line s) st =
           st\<lparr>client_shows := (client_shows st)[i := (client_shows st ! i)\<lparr>seats := seats s\<rparr>]\<rparr>"
proof -
  let ?tot = "to_string (length (getAvailableSeats s)) @ ''/20)''"
  let ?sl0 = "'' '' @ seats_body s @ '' (Total: '' @ ?tot"
  have pre: "\<not> prefix ''Theater: '' (seats_line s)" "\<not> prefix ''  Movie: '' (seats_line s)"
    by (simp_all add: seats_line_def)
  have mark: "str_find ''    Available seats:'' (seats_line s) \<noteq> None"
    by (simp add: seats_line_def str_find_prefix)
  have colon: "str_find '':'' (seats_line s) = Some 19"
    using str_find_first [of "CHR '':''" "[]" "''    Available seats''" "[]" ?sl0]
    by (simp add: seats_line_def)
  have dr: "drop 20 (seats_line s) = ?sl0"
    by (simp add: seats_line_def)
  have "CHR ''('' \<notin> set ('' '' @ seats_body s @ '' '')"
    using seats_body_plain [of s] by simp
  from str_find_first [OF _ this, of "[]" "''Total:''" "'' '' @ ?tot"]
  have total: "str_find ''(Total:'' ?sl0 = Some (length ('' '' @ seats_body s @ '' ''))"
    by simp
  have tk: "take (length ('' '' @ seats_body s @ '' '')) ?sl0 = '' '' @ seats_body s @ '' ''"
    by simp
  have upd: "updateSeatAvailability (seats s) (client_shows st ! i)
               = (client_shows st ! i)\<lparr>seats := seats s\<rparr>"
    using assms(2,3) by (simp add: updateSeatAvailability_def)
  have sl: "drop (19 + 1) (seats_line s) = ?sl0"
    using dr by simp
  have toks: "seat_token_loop (tokens (take (length ('' '' @ seats_body s @ '' '')) ?sl0))
                (replicate 20 True) = seats s"
    unfolding tk by (rule seats_body_tokens [OF assms(3)])
  show ?thesis
    unfolding parse_line_def str_find_zero_iff colon option.case sl total toks Let_def
    using pre mark assms(1)
    by (simp add: upd)
qed

subsection \<open>The parser on the blocks of a snapshot\<close>

lemma format_show_lines:
  "format_show s = movie_line s @ CHR ''\<newline>'' # seats_line s @ [CHR ''\<newline>'']"
  by (simp add: format_show_def movie_line_def seats_line_def seats_body_def Let_def)

lemma movie_line_one_line:
  "wire_safe s \<Longrightarrow> CHR ''\<newline>'' \<notin> set (movie_line s)"
  by (simp add: wire_safe_def movie_line_def)

lemma seats_line_one_line: "CHR ''\<newline>'' \<notin> set (seats_line s)"
  using seats_body_plain [of s] to_string_plain [of "length (getAvailableSeats s)"]
  by (simp add: seats_line_def)

lemma Shows_ctor_with_seats:
  "(Shows_ctor (movie s) (dateTime s) (theater s))\<lparr>seats := seats s\<rparr> = s"
  by (cases s) (simp add: Shows_ctor_def)

lemma parse_show_block:
  assumes "wire_safe s" and "currentTheater st = theater s"
  shows "parse_lines st (format_show s @ rest) =
           parse_lines (st\<lparr>client_shows := client_shows st @ [s],
                           currentShow := Some (length (client_shows st))\<rparr>) rest"
proof -
  let ?n = "length (client_shows st)"
  let ?st1 = "st\<lparr>client_shows := client_shows st @ [Shows_ctor (movie s) (dateTime s) (theater s)],
                 currentShow := Some ?n\<rparr>"
  have len: "length (seats s) = 20" using assms(1) by (simp add: wire_safe_def)
  have "parse_lines st (format_show s @ rest)
          = parse_lines (parse_line (movie_line s) st) (seats_line s @ CHR ''\<newline>'' # rest)"
    using parse_lines_line [OF movie_line_one_line [OF assms(1)], of st "seats_line s @ CHR ''\<newline>'' # rest"]
    by (simp add: format_show_lines)
  also have "\<dots> = parse_lines (parse_line (seats_line s) ?st1) rest"
    using parse_lines_line [OF seats_line_one_line]
    by (simp add: parse_line_movie [OF assms])
  also have "parse_line (seats_line s) ?st1
               = ?st1\<lparr>client_shows := (client_shows ?st1)[?n := (client_shows ?st1 ! ?n)\<lparr>seats := seats s\<rparr>]\<rparr>"
    by (rule parse_line_seats) (simp_all add: len Shows_ctor_def)
  also have "\<dots> = st\<lparr>client_shows := client_shows st @ [s], currentShow := Some ?n\<rparr>"
    by (simp add: Shows_ctor_with_seats)
  finally show ?thesis .
qed

lemma parse_show_blocks:
  assumes "\<forall>s \<in> set ss. wire_safe s \<and> theater s = currentTheater st"
  shows "\<exists>cs. parse_lines st (concat (map format_show ss) @ rest) =
               parse_lines (st\<lparr>client_shows := client_shows st @ ss, currentShow := cs\<rparr>) rest"
  using assms
proof (induction ss arbitrary: st)
  case Nil
  show ?case by (intro exI [of _ "currentShow st"]) simp
next
  case (Cons s ss)
  let ?st1 = "st\<lparr>client_shows := client_shows st @ [s],
                 currentShow := Some (length (client_shows st))\<rparr>"
  from Cons.prems have s: "wire_safe s" "currentTheater st = theater s" by simp_all
  have "\<forall>x \<in> set ss. wire_safe x \<and> theater x = currentTheater ?st1"
    using Cons.prems by simp
  from Cons.IH [OF this] obtain cs where
    "parse_lines ?st1 (concat (map format_show ss) @ rest) =
       parse_lines (?st1\<lparr>client_shows := client_shows ?st1 @ ss, currentShow := cs\<rparr>) rest"
    by blast
  then have "parse_lines st (concat (map format_show (s # ss)) @ rest) =
       parse_lines (st\<lparr>client_shows := client_shows st @ s # ss, currentShow := cs\<rparr>) rest"
    using parse_show_block [OF s, of "concat (map format_show ss) @ rest"] by simp
  then show ?case by blast
qed

lemma parse_theater_block:
  assumes "t \<noteq> []" and "CHR ''\<newline>'' \<notin> set t" and "\<forall>s \<in> set ss. wire_safe s"
  shows "\<exists>cs. parse_lines st (format_theater ss t @ rest) =
               parse_lines (st\<lparr>client_shows := client_shows st @ filter (\<lambda>s. theater s = t) ss,
                               currentTheater := t, currentShow := cs\<rparr>) rest"
proof -
  let ?fs = "filter (\<lambda>s. theater s = t) ss"
  let ?st1 = "st\<lparr>currentTheater := t, currentShow := None\<rparr>"
  have one: "CHR ''\<newline>'' \<notin> set (''Theater: '' @ t)"
    using assms(2) by simp
  have shape: "format_theater ss t @ rest
          = (''Theater: '' @ t) @ CHR ''\<newline>'' # (concat (map format_show ?fs) @ CHR ''\<newline>'' # rest)"
    by (simp add: format_theater_def)
  have fs: "\<forall>s \<in> set ?fs. wire_safe s \<and> theater s = currentTheater ?st1"
    using assms(3) by simp
  from parse_show_blocks [OF fs, of "CHR ''\<newline>'' # rest"] obtain cs where cs:
    "parse_lines ?st1 (concat (map format_show ?fs) @ CHR ''\<newline>'' # rest) =
       parse_lines (?st1\<lparr>client_shows := client_shows ?st1 @ ?fs, currentShow := cs\<rparr>)
         (CHR ''\<newline>'' # rest)"
    by blast
  let ?st2 = "?st1\<lparr>client_shows := client_shows ?st1 @ ?fs, currentShow := cs\<rparr>"
  have blank: "parse_lines ?st2 (CHR ''\<newline>'' # rest) = parse_lines ?st2 rest"
    using parse_lines_line [of "[]" ?st2 rest] by (simp add: parse_line_blank)
  have st2: "?st2 = st\<lparr>client_shows := client_shows st @ ?fs, currentTheater := t,
                          currentShow := cs\<rparr>"
    by simp
  have "parse_lines st (format_theater ss t @ rest)
          = parse_lines ?st1 (concat (map format_show ?fs) @ CHR ''\<newline>'' # rest)"
    unfolding shape parse_lines_line [OF one] parse_line_theater ..
  also have "\<dots> = parse_lines ?st2 (CHR ''\<newline>'' # rest)" by (rule cs)
  also have "\<dots> = parse_lines ?st2 rest" by (rule blank)
  finally have "parse_lines st (format_theater ss t @ rest) =
       parse_lines (st\<lparr>client_shows := client_shows st @ ?fs, currentTheater := t,
                       currentShow := cs\<rparr>) rest"
    unfolding st2 .
  then show ?thesis by blast
qed

lemma parse_theater_blocks:
  assumes "\<forall>t \<in> set ts. t \<noteq> [] \<and> CHR ''\<newline>'' \<notin> set t" and "\<forall>s \<in> set ss. wire_safe s"
  shows "\<exists>ct cs. parse_lines st (concat (map (format_theater ss) ts) @ rest) =
               parse_lines (st\<lparr>client_shows :=
                                 client_shows st
                                 @ concat (map (\<lambda>t. filter (\<lambda>s. theater s = t) ss) ts),
                               currentTheater := ct, currentShow := cs\<rparr>) rest"
  using assms(1)
proof (induction ts arbitrary: st)
  case Nil
  show ?case
    by (intro exI [of _ "currentTheater st"] exI [of _ "currentShow st"]) simp
next
  case (Cons t ts)
  let ?fs = "filter (\<lambda>s. theater s = t) ss"
  from Cons.prems have t: "t \<noteq> []" "CHR ''\<newline>'' \<notin> set t"
    and ts: "\<forall>t \<in> set ts. t \<noteq> [] \<and> CHR ''\<newline>'' \<notin> set t"
    by simp_all
  from parse_theater_block [OF t assms(2), of st "concat (map (format_theater ss) ts) @ rest"]
  obtain cs1 where 1:
    "parse_lines st (format_theater ss t @ concat (map (format_theater ss) ts) @ rest) =
       parse_lines (st\<lparr>client_shows := client_shows st @ ?fs, currentTheater := t,
                       currentShow := cs1\<rparr>) (concat (map (format_theater ss) ts) @ rest)"
    by blast
  let ?st1 = "st\<lparr>client_shows := client_shows st @ ?fs, currentTheater := t, currentShow := cs1\<rparr>"
  from Cons.IH [OF ts, of ?st1] obtain ct cs where 2:
    "parse_lines ?st1 (concat (map (format_theater ss) ts) @ rest) =
       parse_lines (?st1\<lparr>client_shows :=
                           client_shows ?st1
                           @ concat (map (\<lambda>t. filter (\<lambda>s. theater s = t) ss) ts),
                         currentTheater := ct, currentShow := cs\<rparr>) rest"
    by blast
  from 1 2 have "parse_lines st (concat (map (format_theater ss) (t # ts)) @ rest) =
       parse_lines (st\<lparr>client_shows :=
                         client_shows st
                         @ concat (map (\<lambda>t. filter (\<lambda>s. theater s = t) ss) (t # ts)),
                       currentTheater := ct, currentShow := cs\<rparr>) rest"
    by simp
  then show ?case by blast
qed

lemma set_theaters_of_foldl:
  "set (foldl (\<lambda>theaters show. if theater show \<in> set theaters then theaters
                                  else theaters @ [theater show]) acc ss)
     = set acc \<union> theater ` set ss"
  by (induction ss arbitrary: acc) auto

lemma set_theaters_of: "set (theaters_of ss) = theater ` set ss"
  by (simp add: theaters_of_def set_theaters_of_foldl)

lemma parse_snapshot:
  assumes "\<forall>s \<in> set ss. wire_safe s"
  shows "parseAndUpdateShows (formatCinemaData ss) = snapshot_order ss"
proof -
  let ?init = "\<lparr>client_shows = [], currentTheater = [], currentShow = None\<rparr>"
  let ?blocks = "concat (map (format_theater ss) (theaters_of ss))"
  have ts: "\<forall>t \<in> set (theaters_of ss). t \<noteq> [] \<and> CHR ''\<newline>'' \<notin> set t"
    using assms by (auto simp: set_theaters_of wire_safe_def)
  have "formatCinemaData ss
          = ''=== CINEMA DATA STREAM ==='' @ CHR ''\<newline>'' # (?blocks @ ''=== END CINEMA DATA ===\<newline>'')"
    by (simp add: formatCinemaData_def)
  then have "parse_lines ?init (formatCinemaData ss)
          = parse_lines ?init (?blocks @ ''=== END CINEMA DATA ===\<newline>'')"
    using parse_lines_line [of "''=== CINEMA DATA STREAM ===''" ?init]
    by (simp add: parse_line_header)
  moreover from parse_theater_blocks [OF ts assms, of ?init "''=== END CINEMA DATA ===\<newline>''"]
  obtain ct cs where
    "parse_lines ?init (?blocks @ ''=== END CINEMA DATA ===\<newline>'') =
       parse_lines \<lparr>client_shows = snapshot_order ss, currentTheater = ct, currentShow = cs\<rparr>
         ''=== END CINEMA DATA ===\<newline>''"
    by (auto simp: snapshot_order_def)
  moreover have "parse_lines st' ''=== END CINEMA DATA ===\<newline>'' = st'" for st'
    using parse_lines_line [of "''=== END CINEMA DATA ===''" st' "[]"]
    by (simp add: parse_line_footer parse_lines_Nil)
  ultimately show ?thesis
    by (simp add: parseAndUpdateShows_def)
qed

subsection \<open>The snapshot order is a regrouping of the catalog\<close>

lemma distinct_theaters_of_foldl:
  "distinct acc \<Longrightarrow>
     distinct (foldl (\<lambda>theaters show. if theater show \<in> set theaters then theaters
                                       else theaters @ [theater show]) acc ss)"
  by (induction ss arbitrary: acc) auto

lemma distinct_theaters_of: "distinct (theaters_of ss)"
  by (simp add: theaters_of_def distinct_theaters_of_foldl)

lemma mset_grouped:
  "distinct ts \<Longrightarrow>
     mset (concat (map (\<lambda>t. filter (\<lambda>s. theater s = t) ss) ts))
       = filter_mset (\<lambda>s. theater s \<in> set ts) (mset ss)"
proof (induction ts)
  case Nil
  then show ?case by simp
next
  case (Cons t ts)
  have "filter_mset (\<lambda>s. theater s = t) (mset ss) + filter_mset (\<lambda>s. theater s \<in> set ts) (mset ss)
          = filter_mset (\<lambda>s. theater s \<in> set (t # ts)) (mset ss)"
    using Cons.prems by (induction ss) auto
  with Cons show ?case by simp
qed

lemma filter_mset_own_theater:
  "set ss \<subseteq> A \<Longrightarrow> filter_mset (\<lambda>s. theater s \<in> theater ` A) (mset ss) = mset ss"
  by (induction ss) auto

lemma mset_snapshot_order: "mset (snapshot_order ss) = mset ss"
proof -
  have "filter_mset (\<lambda>s. theater s \<in> set (theaters_of ss)) (mset ss) = mset ss"
    by (simp add: set_theaters_of filter_mset_own_theater)
  then show ?thesis
    by (simp add: snapshot_order_def mset_grouped [OF distinct_theaters_of])
qed

subsection \<open>Snapshot round trip\<close>

text \<open>
  C3 (as claimed). For every list of shows, parsing the formatted snapshot gives one
  entry per input show, in input order, with the same available seats. This fails in two
  ways: when the shows of a theater are not adjacent the entries come back regrouped by
  theater, so the second entry has the seats of the third show; and a show with an empty
  date is not read back at all.
\<close>

theorem snapshot_round_trip_counterexample:
  "parseAndUpdateShows (formatCinemaData interleaved_catalog)
     = [interleaved_catalog ! 0, interleaved_catalog ! 2, interleaved_catalog ! 1]
   \<and> getAvailableSeats (parseAndUpdateShows (formatCinemaData interleaved_catalog) ! 1)
       \<noteq> getAvailableSeats (interleaved_catalog ! 1)
   \<and> parseAndUpdateShows (formatCinemaData [undated_show]) = []"
proof -
  have w: "\<forall>s \<in> set interleaved_catalog. wire_safe s"
    by (simp add: interleaved_catalog_def wire_safe_def Shows_ctor_def)
  have o: "snapshot_order interleaved_catalog
             = [interleaved_catalog ! 0, interleaved_catalog ! 2, interleaved_catalog ! 1]"
    by (simp add: snapshot_order_def theaters_of_def interleaved_catalog_def Shows_ctor_def)
  have a: "getAvailableSeats (interleaved_catalog ! 2) \<noteq> getAvailableSeats (interleaved_catalog ! 1)"
    by code_simp
  have u: "parseAndUpdateShows (formatCinemaData [undated_show]) = []"
    by code_simp
  from parse_snapshot [OF w] o a u show ?thesis by simp
qed

text \<open>
  C3 (amended). For every list of shows with names the wire format can carry (theater
  not empty and without line break; title without parenthesis or line break; date not
  empty and without closing parenthesis or line break) and 20 seats each, parsing the
  formatted initial snapshot gives the catalog in snapshot order: theaters in first-seen
  order and the shows of a theater in catalog order. That is one entry per input show
  (a permutation of the catalog), each entry equal to its show, so with the same
  available seats; when the catalog is already grouped by theater the entries come in
  catalog order.
\<close>

theorem snapshot_round_trip:
  assumes "\<forall>s \<in> set shows. wire_safe s"
  shows "parseAndUpdateShows (formatCinemaData shows) = snapshot_order shows
       \<and> map getAvailableSeats (parseAndUpdateShows (formatCinemaData shows))
           = map getAvailableSeats (snapshot_order shows)
       \<and> mset (parseAndUpdateShows (formatCinemaData shows)) = mset shows
       \<and> (snapshot_order shows = shows \<longrightarrow> parseAndUpdateShows (formatCinemaData shows) = shows)"
proof -
  have "parseAndUpdateShows (formatCinemaData shows) = snapshot_order shows"
    using assms by (rule parse_snapshot)
  then show ?thesis
    by (simp add: mset_snapshot_order)
qed

theorem snapshot_round_trip_witness:
  "parseAndUpdateShows (formatCinemaData main_catalog) = main_catalog
   \<and> length main_catalog = 9"
proof -
  have w: "\<forall>s \<in> set main_catalog. wire_safe s"
    by code_simp
  have o: "snapshot_order main_catalog = main_catalog"
    by code_simp
  have l: "length main_catalog = 9"
    by code_simp
  from snapshot_round_trip [OF w] o l show ?thesis by simp
qed

subsection \<open>Every response of processBooking\<close>









end
